theory Spec2Isabelle
  imports Main "HOL-Library.Word"
begin

section \<open>HarfBuzz shaping entry points (hb-shape.cc)\<close>

text \<open>
  The theory embeds the four public functions of \<^verbatim>\<open>hb-shape.cc\<close>:
  \<^verbatim>\<open>hb_shape_list_shapers\<close>, \<^verbatim>\<open>hb_shape_full\<close>, \<^verbatim>\<open>hb_shape\<close> and
  \<^verbatim>\<open>hb_justify\<close>, together with the lazy loader's \<^verbatim>\<open>create\<close>,
  \<^verbatim>\<open>destroy\<close> and \<^verbatim>\<open>get_null\<close>. The functions they call that live in other
  files (the shape-plan cache, the font's glyph lookup, the line splitter, the generic
  lazy loader, the allocator) are either parameters of the model or written out from
  their documented contract; each such definition says so.
\<close>

subsection \<open>Data\<close>

text \<open>
  \<^verbatim>\<open>hb_codepoint_t\<close> is an unsigned 32-bit value. \<^verbatim>\<open>hb_position_t\<close> values
  (target lengths, glyph advances) are read as integers. An array passed with its
  length (\<^verbatim>\<open>features, num_features\<close>; \<^verbatim>\<open>target_lengths, num_target_lengths\<close>;
  \<^verbatim>\<open>coords, num_coords\<close>) is a list, and the count is its length. A nullable,
  null-terminated \<^verbatim>\<open>shaper_list\<close> is a \<open>string list option\<close>: \<open>None\<close> is
  \<^verbatim>\<open>NULL\<close>, \<open>Some []\<close> is the array holding only the terminator.
\<close>

type_synonym hb_codepoint_t = "32 word"
type_synonym hb_position_t = int
type_synonym hb_face_t = nat

record hb_feature_t =
  tag :: "32 word"
  setting :: "32 word"
  range_start :: nat
  range_end :: nat

record hb_segment_properties_t =
  direction :: nat
  script :: "32 word"
  language :: string

datatype hb_buffer_content_type_t =
  CONTENT_TYPE_INVALID | CONTENT_TYPE_UNICODE | CONTENT_TYPE_GLYPHS

record hb_glyph =
  codepoint :: hb_codepoint_t
  cluster :: nat
  x_advance :: hb_position_t

record hb_buffer_t =
  props :: hb_segment_properties_t
  content_type :: hb_buffer_content_type_t
  items :: "hb_glyph list"

record hb_font_t =
  face :: hb_face_t
  coords :: "int list"
  nominal_glyphs :: "(hb_codepoint_t \<times> hb_codepoint_t) list"

record hb_shape_plan_t =
  plan_face :: hb_face_t
  plan_props :: hb_segment_properties_t
  plan_features :: "hb_feature_t list"
  plan_coords :: "int list"
  plan_shapers :: "string list"

subsection \<open>Collaborators and the observable state\<close>

text \<open>
  The functions of other files that \<^verbatim>\<open>hb_shape_full\<close> and \<^verbatim>\<open>hb_justify\<close>
  call are parameters: a theorem stated for every \<open>collaborators\<close> value holds whatever
  these functions compute. An out-parameter is an extra argument (the content of the
  variable before the call) and an extra result (its content after):
  \<^verbatim>\<open>font->get_nominal_glyph (u, &g)\<close> maps the old content of \<^verbatim>\<open>g\<close> to the
  returned flag and the new content. The line splitter yields the buffer as it leaves it
  and the line segments it computed.
\<close>

record collaborators =
  hb_shape_plan_create_cached2 ::
    "hb_face_t \<Rightarrow> hb_segment_properties_t \<Rightarrow> hb_feature_t list \<Rightarrow> int list
      \<Rightarrow> string list option \<Rightarrow> hb_shape_plan_t"
  hb_shape_plan_execute ::
    "hb_shape_plan_t \<Rightarrow> hb_font_t \<Rightarrow> hb_buffer_t \<Rightarrow> hb_feature_t list
      \<Rightarrow> bool \<times> hb_buffer_t"
  get_nominal_glyph ::
    "hb_font_t \<Rightarrow> hb_codepoint_t \<Rightarrow> hb_codepoint_t \<Rightarrow> bool \<times> hb_codepoint_t"
  hb_split_buffer_to_lines ::
    "hb_buffer_t \<Rightarrow> hb_position_t list \<Rightarrow> hb_codepoint_t
      \<Rightarrow> hb_buffer_t \<times> (nat \<times> nat) list"

text \<open>
  Every call into another file is recorded, in order, with its arguments (and for the
  plan cache the plan it returned). The buffer is the one the caller's pointer refers
  to; \<open>line_segments\<close> holds what the last run of the line splitter produced.
\<close>

datatype call =
  Shape_plan_create_cached2 hb_face_t hb_segment_properties_t "hb_feature_t list"
    "int list" "string list option" hb_shape_plan_t
  | Shape_plan_execute hb_shape_plan_t
  | Shape_plan_destroy hb_shape_plan_t
  | Get_nominal_glyph hb_codepoint_t
  | Split_buffer_to_lines hb_buffer_t "hb_position_t list" hb_codepoint_t

record world =
  buffer :: hb_buffer_t
  line_segments :: "(nat \<times> nat) list"
  calls :: "call list"

definition record_call :: "call \<Rightarrow> world \<Rightarrow> world" where
  "record_call c w = w\<lparr>calls := calls w @ [c]\<rparr>"

definition new_calls :: "world \<Rightarrow> world \<Rightarrow> call list" where
  "new_calls w w' = drop (length (calls w)) (calls w')"

fun is_destroy_of :: "hb_shape_plan_t \<Rightarrow> call \<Rightarrow> bool" where
  "is_destroy_of p (Shape_plan_destroy q) = (q = p)"
| "is_destroy_of p _ = False"

fun is_create_of :: "hb_shape_plan_t \<Rightarrow> call \<Rightarrow> bool" where
  "is_create_of p (Shape_plan_create_cached2 f pr fs cs sl q) = (q = p)"
| "is_create_of p _ = False"

fun is_split :: "call \<Rightarrow> bool" where
  "is_split (Split_buffer_to_lines b ts g) = True"
| "is_split _ = False"

subsection \<open>hb_shape_full, hb_shape, hb_justify\<close>

text \<open>
  \<^verbatim>\<open>hb_shape_full\<close> (lines 123-138): acquire the plan, execute it on the buffer,
  destroy the plan, return the result of the execution.
\<close>

definition hb_shape_full ::
  "collaborators \<Rightarrow> hb_font_t \<Rightarrow> hb_feature_t list \<Rightarrow> string list option
    \<Rightarrow> world \<Rightarrow> bool \<times> world" where
  "hb_shape_full env font features shaper_list w =
     (let shape_plan = hb_shape_plan_create_cached2 env (face font) (props (buffer w))
                         features (coords font) shaper_list;
          w1 = record_call (Shape_plan_create_cached2 (face font) (props (buffer w))
                              features (coords font) shaper_list shape_plan) w;
          (res, buf) = hb_shape_plan_execute env shape_plan font (buffer w1) features;
          w2 = record_call (Shape_plan_execute shape_plan) (w1\<lparr>buffer := buf\<rparr>);
          w3 = record_call (Shape_plan_destroy shape_plan) w2
      in (res, w3))"

text \<open>\<^verbatim>\<open>hb_shape\<close> (lines 156-163): the same with \<^verbatim>\<open>nullptr\<close>; returns nothing.\<close>

definition hb_shape ::
  "collaborators \<Rightarrow> hb_font_t \<Rightarrow> hb_feature_t list \<Rightarrow> world \<Rightarrow> world" where
  "hb_shape env font features w = snd (hb_shape_full env font features None w)"

text \<open>
  \<^verbatim>\<open>hb_justify\<close> (lines 181-202). The local \<^verbatim>\<open>space\<close> is declared without an
  initialiser; \<open>space0\<close> is whatever it holds before the lookup writes to it.
\<close>

definition hb_justify ::
  "collaborators \<Rightarrow> hb_font_t \<Rightarrow> hb_position_t list \<Rightarrow> hb_feature_t list
    \<Rightarrow> hb_codepoint_t \<Rightarrow> world \<Rightarrow> world" where
  "hb_justify env font target_lengths features space0 w =
     (if length target_lengths = 0 then w
      else
        let (res, w1) = hb_shape_full env font features None w;
            (found, space) = get_nominal_glyph env font 0x20 space0;
            w2 = record_call (Get_nominal_glyph 0x20) w1;
            (buf, segs) = hb_split_buffer_to_lines env (buffer w2) target_lengths space;
            w3 = record_call (Split_buffer_to_lines (buffer w2) target_lengths space) w2
        in w3\<lparr>buffer := buf, line_segments := segs\<rparr>)"

subsection \<open>The shape-plan cache\<close>

text \<open>
  Modelled from the spec: \<^verbatim>\<open>hb_shape_plan_create_cached2\<close> and
  \<^verbatim>\<open>hb_shape_plan_execute\<close> (hb-shape-plan.cc) are missing from the sources. A plan
  is bound to the request's face, segment properties, features, variation coordinates
  and the effective backend order: the explicit list if one is given, else the process
  default. Executing a plan tries the backends in the plan's order, one at a time; the
  first that declares itself applicable to the buffer's properties and completes
  without failure wins and stops the chain. A backend that fails leaves the buffer as it
  is at that point, and the next one starts from there. What a backend does to a buffer
  is out of scope, so the backends are a parameter.
\<close>

record backends =
  shaper_applicable :: "string \<Rightarrow> hb_segment_properties_t \<Rightarrow> bool"
  shaper_run ::
    "string \<Rightarrow> hb_font_t \<Rightarrow> hb_buffer_t \<Rightarrow> hb_feature_t list \<Rightarrow> bool \<times> hb_buffer_t"

definition plan_create_cached2 ::
  "string list \<Rightarrow> hb_face_t \<Rightarrow> hb_segment_properties_t \<Rightarrow> hb_feature_t list
    \<Rightarrow> int list \<Rightarrow> string list option \<Rightarrow> hb_shape_plan_t" where
  "plan_create_cached2 default_shapers f pr features cs shaper_list =
     \<lparr>plan_face = f, plan_props = pr, plan_features = features, plan_coords = cs,
      plan_shapers = (case shaper_list of None \<Rightarrow> default_shapers | Some l \<Rightarrow> l)\<rparr>"

fun try_shapers ::
  "backends \<Rightarrow> hb_font_t \<Rightarrow> hb_feature_t list \<Rightarrow> string list \<Rightarrow> hb_buffer_t
    \<Rightarrow> bool \<times> hb_buffer_t" where
  "try_shapers bk font features [] buf = (False, buf)"
| "try_shapers bk font features (s # ss) buf =
     (if shaper_applicable bk s (props buf) then
        (case shaper_run bk s font buf features of
           (True, buf') \<Rightarrow> (True, buf')
         | (False, buf') \<Rightarrow> try_shapers bk font features ss buf')
      else try_shapers bk font features ss buf)"

definition plan_execute ::
  "backends \<Rightarrow> hb_shape_plan_t \<Rightarrow> hb_font_t \<Rightarrow> hb_buffer_t \<Rightarrow> hb_feature_t list
    \<Rightarrow> bool \<times> hb_buffer_t" where
  "plan_execute bk shape_plan font buf features =
     try_shapers bk font features (plan_shapers shape_plan) buf"

subsection \<open>The font's nominal-glyph lookup\<close>

text \<open>
  Modelled from the spec: \<^verbatim>\<open>hb_font_t::get_nominal_glyph\<close> (hb-font.hh) is missing
  from the sources. It is the font's mapping of a character to its nominal glyph id:
  when the font maps the character, the glyph id is written to the out-parameter and the
  flag is true. The spec does not say what the out-parameter holds when the font has no
  glyph for the character; \<open>on_missing\<close> maps its old content to its new one in that
  case (the identity when the lookup leaves it alone).
\<close>

definition lookup_nominal_glyph ::
  "(hb_codepoint_t \<Rightarrow> hb_codepoint_t) \<Rightarrow> hb_font_t \<Rightarrow> hb_codepoint_t \<Rightarrow> hb_codepoint_t
    \<Rightarrow> bool \<times> hb_codepoint_t" where
  "lookup_nominal_glyph on_missing font u g =
     (case map_of (nominal_glyphs font) u of
        Some g' \<Rightarrow> (True, g')
      | None \<Rightarrow> (False, on_missing g))"

subsection \<open>The line splitter\<close>

text \<open>
  Modelled from the spec: \<^verbatim>\<open>hb_split_buffer_to_lines\<close> (declared in
  hb-justification.h) is missing from the sources. It walks the shaped buffer
  accumulating a running advance per candidate line. The overflow point of a line is the
  first glyph whose advance would take the running advance over the line's target
  length. If there is none the line runs to the end of the buffer. Otherwise the line is
  cut at the most recent break glyph at or before the overflow point, and at the
  overflow point itself when there is no such glyph. Target lengths are consumed one per
  line, in order, and the last one is reused once they are exhausted. With no target
  length nothing is split. Segments are half-open index ranges into the buffer.

  Two points the spec leaves open are fixed here so that the walk advances: a break
  glyph that opens a line is not a cut point of that line, and a glyph that overflows
  on its own gets a line to itself. Advances are added as unbounded integers.
\<close>

fun overflow_scan :: "hb_position_t \<Rightarrow> hb_position_t \<Rightarrow> hb_glyph list \<Rightarrow> nat \<Rightarrow> nat" where
  "overflow_scan target running [] i = i"
| "overflow_scan target running (g # gs) i =
     (if running + x_advance g > target then i
      else overflow_scan target (running + x_advance g) gs (Suc i))"

definition overflow_point :: "hb_position_t \<Rightarrow> hb_glyph list \<Rightarrow> nat \<Rightarrow> nat" where
  "overflow_point target glyphs start = overflow_scan target 0 (drop start glyphs) start"

definition last_break :: "hb_codepoint_t \<Rightarrow> hb_glyph list \<Rightarrow> nat \<Rightarrow> nat \<Rightarrow> nat option" where
  "last_break break_glyph glyphs start ov =
     (case filter (\<lambda>j. codepoint (glyphs ! j) = break_glyph) (rev [Suc start ..< Suc ov]) of
        [] \<Rightarrow> None
      | j # _ \<Rightarrow> Some j)"

definition cut_line :: "hb_position_t \<Rightarrow> hb_codepoint_t \<Rightarrow> hb_glyph list \<Rightarrow> nat \<Rightarrow> nat" where
  "cut_line target break_glyph glyphs start =
     (let ov = overflow_point target glyphs start in
      if length glyphs \<le> ov then length glyphs
      else (case last_break break_glyph glyphs start ov of
              Some j \<Rightarrow> j
            | None \<Rightarrow> if ov = start then Suc start else ov))"

lemma overflow_scan_bounds: "i \<le> overflow_scan target running gs i \<and> overflow_scan target running gs i \<le> i + length gs"
proof (induction gs arbitrary: running i)
  case Nil
  then show ?case by simp
next
  case (Cons g gs)
  have "Suc i \<le> overflow_scan target (running + x_advance g) gs (Suc i) \<and>
        overflow_scan target (running + x_advance g) gs (Suc i) \<le> Suc i + length gs"
    by (rule Cons.IH)
  then show ?case by simp
qed

lemma last_break_range: "last_break break_glyph glyphs start ov = Some j \<Longrightarrow> start < j \<and> j \<le> ov"
proof -
  assume a: "last_break break_glyph glyphs start ov = Some j"
  let ?l = "filter (\<lambda>j. codepoint (glyphs ! j) = break_glyph) (rev [Suc start ..< Suc ov])"
  from a obtain js where "?l = j # js"
    by (simp add: last_break_def split: list.splits)
  then have "j \<in> set ?l" by simp
  then have "j \<in> set [Suc start ..< Suc ov]" by simp
  then show ?thesis by auto
qed

lemma overflow_point_bounds:
  "start \<le> length glyphs \<Longrightarrow> start \<le> overflow_point target glyphs start \<and> overflow_point target glyphs start \<le> length glyphs"
  using overflow_scan_bounds [of start target 0 "drop start glyphs"]
  by (simp add: overflow_point_def)

lemma cut_line_bounds:
  assumes "start < length glyphs"
  shows "start < cut_line target break_glyph glyphs start \<and> cut_line target break_glyph glyphs start \<le> length glyphs"
proof -
  let ?ov = "overflow_point target glyphs start"
  have b: "start \<le> ?ov \<and> ?ov \<le> length glyphs"
    using assms overflow_point_bounds [of start glyphs target] by simp
  show ?thesis
  proof (cases "length glyphs \<le> ?ov")
    case True
    then show ?thesis using assms by (simp add: cut_line_def Let_def)
  next
    case False
    show ?thesis
    proof (cases "last_break break_glyph glyphs start ?ov")
      case None
      then show ?thesis using False b assms by (auto simp: cut_line_def Let_def)
    next
      case (Some j)
      then have "start < j \<and> j \<le> ?ov" by (rule last_break_range)
      then show ?thesis using False Some b by (simp add: cut_line_def Let_def)
    qed
  qed
qed

function split_lines ::
  "hb_position_t list \<Rightarrow> hb_codepoint_t \<Rightarrow> hb_glyph list \<Rightarrow> nat \<Rightarrow> (nat \<times> nat) list" where
  "split_lines targets break_glyph glyphs start =
     (if length glyphs \<le> start \<or> targets = [] then []
      else
        let e = cut_line (hd targets) break_glyph glyphs start in
        (start, e) # split_lines (if tl targets = [] then targets else tl targets)
                       break_glyph glyphs e)"
  by pat_completeness auto
termination
proof (relation "measure (\<lambda>(targets, break_glyph, glyphs, start). length glyphs - start)")
  show "wf (measure (\<lambda>(targets, break_glyph, glyphs, start). length glyphs - start))" by simp
next
  fix targets :: "hb_position_t list" and break_glyph :: hb_codepoint_t
    and glyphs :: "hb_glyph list" and start x :: nat
  assume a: "\<not> (length glyphs \<le> start \<or> targets = [])"
    and x: "x = cut_line (hd targets) break_glyph glyphs start"
  have "start < x" using a x cut_line_bounds [of start glyphs "hd targets" break_glyph] by simp
  then show "((if tl targets = [] then targets else tl targets, break_glyph, glyphs, x),
              targets, break_glyph, glyphs, start)
             \<in> measure (\<lambda>(targets, break_glyph, glyphs, start). length glyphs - start)"
    using a by (simp add: diff_less_mono2)
qed

declare split_lines.simps [simp del]

definition split_buffer_to_lines ::
  "hb_buffer_t \<Rightarrow> hb_position_t list \<Rightarrow> hb_codepoint_t \<Rightarrow> hb_buffer_t \<times> (nat \<times> nat) list" where
  "split_buffer_to_lines buf target_lengths break_glyph =
     (buf, split_lines target_lengths break_glyph (items buf) 0)"

text \<open>The collaborators as modelled above, for given backends and default order.\<close>

definition modelled_collaborators ::
  "string list \<Rightarrow> backends \<Rightarrow> (hb_codepoint_t \<Rightarrow> hb_codepoint_t) \<Rightarrow> collaborators" where
  "modelled_collaborators default_shapers bk on_missing =
     \<lparr>hb_shape_plan_create_cached2 = plan_create_cached2 default_shapers,
      hb_shape_plan_execute = plan_execute bk,
      get_nominal_glyph = lookup_nominal_glyph on_missing,
      hb_split_buffer_to_lines = split_buffer_to_lines\<rparr>"

subsection \<open>The shaper list and its lazy loader\<close>

text \<open>
  A \<^verbatim>\<open>const char **\<close> is either the address of the static array
  \<^verbatim>\<open>nil_shaper_list\<close> or a block obtained from the allocator; \<^verbatim>\<open>nullptr\<close> is
  \<open>None\<close>. An array of \<^verbatim>\<open>const char *\<close> is a list whose entries are a name or
  \<open>None\<close> for a null entry. The compiled-in table \<^verbatim>\<open>_hb_shapers_get ()\<close> with its
  \<^verbatim>\<open>HB_SHAPERS_COUNT\<close> entries is a parameter: a list of entries, the count its
  length.
\<close>

record hb_shaper_entry_t =
  name :: string

datatype shaper_list_ptr = Nil_shaper_list | Block nat

record registry =
  stored :: "shaper_list_ptr option"
  blocks :: "nat \<Rightarrow> string option list option"
  next_block :: nat
  alloc_script :: "bool list"
  atexit_handlers :: nat

definition nil_shaper_list :: "string option list" where
  "nil_shaper_list = [None]"

definition shaper_list_at :: "registry \<Rightarrow> shaper_list_ptr \<Rightarrow> string option list option" where
  "shaper_list_at r p = (case p of Nil_shaper_list \<Rightarrow> Some nil_shaper_list | Block a \<Rightarrow> blocks r a)"

text \<open>
  Modelled from the spec: \<^verbatim>\<open>hb_calloc\<close>, \<^verbatim>\<open>hb_free\<close> and \<^verbatim>\<open>hb_atexit\<close>
  (hb.hh) are missing from the sources. An allocation either fails and yields null, or
  yields a fresh block of the requested number of entries, all zero. Whether a request
  succeeds is not decided by the program: \<open>alloc_script\<close> lists the outcomes of the
  requests still to come, and a request beyond the script fails.
\<close>

definition hb_calloc :: "nat \<Rightarrow> registry \<Rightarrow> nat option \<times> registry" where
  "hb_calloc n r =
     (if alloc_script r \<noteq> [] \<and> hd (alloc_script r) then
        (Some (next_block r),
         r\<lparr>blocks := (blocks r)(next_block r := Some (replicate n None)),
           next_block := Suc (next_block r),
           alloc_script := tl (alloc_script r)\<rparr>)
      else (None, r\<lparr>alloc_script := tl (alloc_script r)\<rparr>))"

definition hb_free :: "nat \<Rightarrow> registry \<Rightarrow> registry" where
  "hb_free a r = r\<lparr>blocks := (blocks r)(a := None)\<rparr>"

definition hb_atexit :: "registry \<Rightarrow> registry" where
  "hb_atexit r = r\<lparr>atexit_handlers := Suc (atexit_handlers r)\<rparr>"

text \<open>The assignment \<^verbatim>\<open>shaper_list[i] = v\<close> on the block at \<open>a\<close>.\<close>

definition store :: "nat \<Rightarrow> nat \<Rightarrow> string option \<Rightarrow> registry \<Rightarrow> registry" where
  "store a i v r = r\<lparr>blocks := (blocks r)(a := map_option (\<lambda>arr. arr[i := v]) (blocks r a))\<rparr>"

text \<open>\<^verbatim>\<open>create\<close> (lines 59-74): the loop over the table, then the rest.\<close>

function create_loop ::
  "hb_shaper_entry_t list \<Rightarrow> nat \<Rightarrow> nat \<Rightarrow> registry \<Rightarrow> nat \<times> registry" where
  "create_loop shapers a i r =
     (if i < length shapers
      then create_loop shapers a (Suc i) (store a i (Some (name (shapers ! i))) r)
      else (i, r))"
  by pat_completeness auto
termination
  by (relation "measure (\<lambda>(shapers, a, i, r). length shapers - i)") auto

declare create_loop.simps [simp del]

definition create :: "hb_shaper_entry_t list \<Rightarrow> registry \<Rightarrow> shaper_list_ptr option \<times> registry" where
  "create shapers r =
     (case hb_calloc (1 + length shapers) r of
        (None, r1) \<Rightarrow> (None, r1)
      | (Some a, r1) \<Rightarrow>
          (let (i, r2) = create_loop shapers a 0 r1;
               r3 = store a i None r2;
               r4 = hb_atexit r3
           in (Some (Block a), r4)))"

text \<open>\<^verbatim>\<open>destroy\<close> (lines 75-76) and \<^verbatim>\<open>get_null\<close> (lines 77-78).\<close>

definition destroy :: "shaper_list_ptr \<Rightarrow> registry \<Rightarrow> registry" where
  "destroy l r = (case l of Block a \<Rightarrow> hb_free a r | Nil_shaper_list \<Rightarrow> r)"

definition get_null :: shaper_list_ptr where
  "get_null = Nil_shaper_list"

text \<open>
  Modelled from the spec: \<^verbatim>\<open>hb_lazy_loader_t::get_unconst\<close> (hb-machinery.hh) is
  missing from the sources. The first call triggers construction and later calls return
  the cached result. When construction fails the loader falls back to the null object,
  and that is what it caches. Calls are taken one at a time; first access from several
  threads at once is not modelled.
\<close>

definition get_unconst :: "hb_shaper_entry_t list \<Rightarrow> registry \<Rightarrow> shaper_list_ptr \<times> registry" where
  "get_unconst shapers r =
     (case stored r of
        Some p \<Rightarrow> (p, r)
      | None \<Rightarrow>
          (case create shapers r of
             (None, r1) \<Rightarrow> (get_null, r1\<lparr>stored := Some get_null\<rparr>)
           | (Some p, r1) \<Rightarrow> (p, r1\<lparr>stored := Some p\<rparr>)))"

text \<open>\<^verbatim>\<open>hb_shape_list_shapers\<close> (lines 98-102).\<close>

definition hb_shape_list_shapers ::
  "hb_shaper_entry_t list \<Rightarrow> registry \<Rightarrow> shaper_list_ptr \<times> registry" where
  "hb_shape_list_shapers shapers r = get_unconst shapers r"

subsection \<open>Sample inputs\<close>

text \<open>
  A font that maps the space, \<open>a\<close> and \<open>b\<close>; a backend \<open>ot\<close> that shapes with any
  font that has a character map, giving every glyph the advance 10, and fails
  otherwise; the text \<open>a b\<close> as an unshaped buffer.
\<close>

definition demo_font :: hb_font_t where
  "demo_font = \<lparr>face = 1, coords = [], nominal_glyphs = [(0x20, 3), (0x61, 68), (0x62, 69)]\<rparr>"

definition demo_font_no_cmap :: hb_font_t where
  "demo_font_no_cmap = \<lparr>face = 2, coords = [], nominal_glyphs = []\<rparr>"

definition demo_run ::
  "string \<Rightarrow> hb_font_t \<Rightarrow> hb_buffer_t \<Rightarrow> hb_feature_t list \<Rightarrow> bool \<times> hb_buffer_t" where
  "demo_run s font buf features =
     (if s = ''ot'' \<and> nominal_glyphs font \<noteq> [] then
        (True, buf\<lparr>content_type := CONTENT_TYPE_GLYPHS,
                  items := map (\<lambda>g. g\<lparr>codepoint :=
                                        (case map_of (nominal_glyphs font) (codepoint g) of
                                           Some g' \<Rightarrow> g' | None \<Rightarrow> 0),
                                      x_advance := 10\<rparr>) (items buf)\<rparr>)
      else (False, buf))"

definition demo_backends :: backends where
  "demo_backends = \<lparr>shaper_applicable = (\<lambda>s pr. s = ''ot'' \<or> s = ''fallback''),
                    shaper_run = demo_run\<rparr>"

definition demo_env :: collaborators where
  "demo_env = modelled_collaborators [''ot'', ''fallback''] demo_backends (\<lambda>g. g)"

definition demo_props :: hb_segment_properties_t where
  "demo_props = \<lparr>direction = 4, script = 0x4C61746E, language = ''en''\<rparr>"

definition demo_buffer :: hb_buffer_t where
  "demo_buffer = \<lparr>props = demo_props, content_type = CONTENT_TYPE_UNICODE,
                  items = [\<lparr>codepoint = 0x61, cluster = 0, x_advance = 0\<rparr>,
                           \<lparr>codepoint = 0x20, cluster = 1, x_advance = 0\<rparr>,
                           \<lparr>codepoint = 0x62, cluster = 2, x_advance = 0\<rparr>]\<rparr>"

definition demo_world :: world where
  "demo_world = \<lparr>buffer = demo_buffer, line_segments = [], calls = []\<rparr>"

definition demo_shapers :: "hb_shaper_entry_t list" where
  "demo_shapers = [\<lparr>name = ''ot''\<rparr>, \<lparr>name = ''fallback''\<rparr>]"

definition demo_registry :: "bool list \<Rightarrow> registry" where
  "demo_registry outcomes =
     \<lparr>stored = None, blocks = (\<lambda>a. None), next_block = 0, alloc_script = outcomes,
      atexit_handlers = 0\<rparr>"

definition demo_glyph :: "hb_codepoint_t \<Rightarrow> hb_glyph" where
  "demo_glyph g = \<lparr>codepoint = g, cluster = 0, x_advance = 10\<rparr>"

definition demo_line :: "hb_glyph list" where
  "demo_line = map demo_glyph [1, 1, 3, 1, 1, 3, 1, 1, 3, 1, 1]"

text \<open>
  The collaborators of \<open>env\<close> with the success flag of every plan execution
  inverted and its effect on the buffer kept.
\<close>

definition flip_execute_result :: "collaborators \<Rightarrow> collaborators" where
  "flip_execute_result env =
     env\<lparr>hb_shape_plan_execute :=
           (\<lambda>p font buf features.
              (\<not> fst (hb_shape_plan_execute env p font buf features),
               snd (hb_shape_plan_execute env p font buf features)))\<rparr>"

lemmas demo_defs = demo_env_def modelled_collaborators_def demo_backends_def demo_run_def
  demo_font_def demo_font_no_cmap_def demo_world_def demo_buffer_def demo_props_def
  plan_create_cached2_def plan_execute_def lookup_nominal_glyph_def split_buffer_to_lines_def

text \<open>
  The collaborators of \<open>env\<close> with the flag of every nominal-glyph lookup inverted and
  what it writes to the out-parameter kept.
\<close>

definition flip_lookup_result :: "collaborators \<Rightarrow> collaborators" where
  "flip_lookup_result env =
     env\<lparr>get_nominal_glyph :=
           (\<lambda>font u g.
              (\<not> fst (get_nominal_glyph env font u g), snd (get_nominal_glyph env font u g)))\<rparr>"

text \<open>The sum of the advances of the glyphs of the segment from \<open>s\<close> up to \<open>e\<close>.\<close>

definition segment_advance :: "hb_glyph list \<Rightarrow> nat \<Rightarrow> nat \<Rightarrow> hb_position_t" where
  "segment_advance glyphs s e = sum_list (map x_advance (take (e - s) (drop s glyphs)))"

lemmas registry_defs = hb_shape_list_shapers_def get_unconst_def create_def hb_calloc_def
  hb_atexit_def store_def get_null_def shaper_list_at_def nil_shaper_list_def demo_registry_def
  demo_shapers_def create_loop.simps

section \<open>Properties\<close>

subsection \<open>What the three entry points do, call by call\<close>

lemma hb_shape_full_unfold:
  "hb_shape_full env font features shaper_list w =
     (fst (hb_shape_plan_execute env
             (hb_shape_plan_create_cached2 env (face font) (props (buffer w)) features
                (coords font) shaper_list) font (buffer w) features),
      \<lparr>buffer = snd (hb_shape_plan_execute env
             (hb_shape_plan_create_cached2 env (face font) (props (buffer w)) features
                (coords font) shaper_list) font (buffer w) features),
       line_segments = line_segments w,
       calls = calls w @
         [Shape_plan_create_cached2 (face font) (props (buffer w)) features (coords font)
            shaper_list
            (hb_shape_plan_create_cached2 env (face font) (props (buffer w)) features
               (coords font) shaper_list),
          Shape_plan_execute
            (hb_shape_plan_create_cached2 env (face font) (props (buffer w)) features
               (coords font) shaper_list),
          Shape_plan_destroy
            (hb_shape_plan_create_cached2 env (face font) (props (buffer w)) features
               (coords font) shaper_list)]\<rparr>)"
  by (simp add: hb_shape_full_def record_call_def Let_def split_beta)

lemma hb_justify_unfold:
  "target_lengths \<noteq> [] \<Longrightarrow>
   hb_justify env font target_lengths features space0 w =
     (let w1 = snd (hb_shape_full env font features None w);
          space = snd (get_nominal_glyph env font 0x20 space0);
          r = hb_split_buffer_to_lines env (buffer w1) target_lengths space
      in \<lparr>buffer = fst r, line_segments = snd r,
          calls = calls w1 @ [Get_nominal_glyph 0x20,
                              Split_buffer_to_lines (buffer w1) target_lengths space]\<rparr>)"
  by (simp add: hb_justify_def record_call_def Let_def split_beta)

subsection \<open>hb_justify with no target lengths\<close>

text \<open>
  C1 (as amended). With an empty target-length list \<^verbatim>\<open>hb_justify\<close> returns at once:
  the buffer, and everything else, is exactly as it was on entry. No plan is acquired,
  nothing is shaped and nothing is split. The claim as written, that the buffer then
  equals what \<^verbatim>\<open>hb_shape\<close> produces on the same input, fails whenever shaping
  changes the buffer.
\<close>

theorem hb_justify_no_targets_is_identity:
  "hb_justify env font [] features space0 w = w"
  by (simp add: hb_justify_def)

theorem hb_justify_no_targets_is_identity_witness:
  "hb_justify demo_env demo_font [] [] 0 demo_world = demo_world \<and>
   content_type (buffer (hb_justify demo_env demo_font [] [] 0 demo_world)) = CONTENT_TYPE_UNICODE \<and>
   calls (hb_justify demo_env demo_font [] [] 0 demo_world) = []"
  using hb_justify_no_targets_is_identity [of demo_env demo_font "[]" 0 demo_world]
  by (simp add: demo_defs)

text \<open>
  On the sample text and font, \<^verbatim>\<open>hb_shape\<close> turns the three characters into
  glyphs while \<^verbatim>\<open>hb_justify\<close> with no target length leaves them as characters.
\<close>

theorem hb_justify_no_targets_counterexample:
  "buffer (hb_justify demo_env demo_font [] [] 0 demo_world) \<noteq>
   buffer (hb_shape demo_env demo_font [] demo_world)"
  by (simp add: hb_justify_def hb_shape_def hb_shape_full_unfold demo_defs)

subsection \<open>hb_shape_full and hb_shape\<close>

text \<open>
  C3. On every call, \<^verbatim>\<open>hb_shape_full\<close> makes exactly three calls into the plan
  cache, in this order: it acquires a plan, executes that plan, and destroys that plan.
  The plan it acquired is thus destroyed exactly once before the function returns,
  whatever the execution returned; the function has a single exit.
\<close>

theorem hb_shape_full_releases_plan_once:
  "new_calls w (snd (hb_shape_full env font features shaper_list w)) =
     [Shape_plan_create_cached2 (face font) (props (buffer w)) features (coords font)
        shaper_list
        (hb_shape_plan_create_cached2 env (face font) (props (buffer w)) features
           (coords font) shaper_list),
      Shape_plan_execute
        (hb_shape_plan_create_cached2 env (face font) (props (buffer w)) features
           (coords font) shaper_list),
      Shape_plan_destroy
        (hb_shape_plan_create_cached2 env (face font) (props (buffer w)) features
           (coords font) shaper_list)] \<and>
   length (filter (is_create_of
        (hb_shape_plan_create_cached2 env (face font) (props (buffer w)) features
           (coords font) shaper_list))
      (new_calls w (snd (hb_shape_full env font features shaper_list w)))) = 1 \<and>
   length (filter (is_destroy_of
        (hb_shape_plan_create_cached2 env (face font) (props (buffer w)) features
           (coords font) shaper_list))
      (new_calls w (snd (hb_shape_full env font features shaper_list w)))) = 1"
  by (simp add: hb_shape_full_unfold new_calls_def)

theorem hb_shape_full_releases_plan_once_witness:
  "\<not> fst (hb_shape_full demo_env demo_font_no_cmap [] None demo_world) \<and>
   length (filter (is_destroy_of
        (hb_shape_plan_create_cached2 demo_env (face demo_font_no_cmap)
           (props (buffer demo_world)) [] (coords demo_font_no_cmap) None))
      (new_calls demo_world (snd (hb_shape_full demo_env demo_font_no_cmap [] None demo_world)))) = 1 \<and>
   fst (hb_shape_full demo_env demo_font [] None demo_world) \<and>
   length (filter (is_destroy_of
        (hb_shape_plan_create_cached2 demo_env (face demo_font)
           (props (buffer demo_world)) [] (coords demo_font) None))
      (new_calls demo_world (snd (hb_shape_full demo_env demo_font [] None demo_world)))) = 1"
  using hb_shape_full_releases_plan_once [of demo_world demo_env demo_font_no_cmap "[]" None]
    hb_shape_full_releases_plan_once [of demo_world demo_env demo_font "[]" None]
  by (simp add: hb_shape_full_unfold demo_defs)

text \<open>
  C4. \<^verbatim>\<open>hb_shape\<close> leaves the world exactly as \<^verbatim>\<open>hb_shape_full\<close> does when
  called with the same font, buffer and features and a null shaper list; the boolean is
  dropped. In particular the buffer is what executing the plan acquired for a null
  shaper list leaves.
\<close>

theorem hb_shape_discards_result:
  "hb_shape env font features w = snd (hb_shape_full env font features None w) \<and>
   buffer (hb_shape env font features w) =
     snd (hb_shape_plan_execute env
            (hb_shape_plan_create_cached2 env (face font) (props (buffer w)) features
               (coords font) None) font (buffer w) features)"
  by (simp add: hb_shape_def hb_shape_full_unfold)

theorem hb_shape_discards_result_witness:
  "hb_shape demo_env demo_font [] demo_world =
     snd (hb_shape_full demo_env demo_font [] None demo_world) \<and>
   fst (hb_shape_full demo_env demo_font [] None demo_world) \<and>
   map codepoint (items (buffer (hb_shape demo_env demo_font [] demo_world))) = [68, 3, 69]"
  using hb_shape_discards_result [of demo_env demo_font "[]" demo_world]
  by (simp add: hb_shape_full_unfold demo_defs)

subsection \<open>hb_justify with at least one target length\<close>

text \<open>
  C7. With at least one target length, \<^verbatim>\<open>hb_justify\<close> first makes the calls of
  \<^verbatim>\<open>hb_shape\<close>, then asks the font for the nominal glyph of the space character
  (0x20), then calls the line splitter on the shaped buffer with the caller's target
  lengths and, as break glyph, the glyph that lookup left in \<^verbatim>\<open>space\<close>.
\<close>

theorem hb_justify_break_glyph:
  "target_lengths \<noteq> [] \<Longrightarrow>
   new_calls w (hb_justify env font target_lengths features space0 w) =
     new_calls w (hb_shape env font features w) @
       [Get_nominal_glyph 0x20,
        Split_buffer_to_lines (buffer (hb_shape env font features w)) target_lengths
          (snd (get_nominal_glyph env font 0x20 space0))]"
  by (simp add: hb_justify_unfold hb_shape_def hb_shape_full_unfold new_calls_def Let_def)

theorem hb_justify_break_glyph_witness:
  "[15] \<noteq> ([] :: hb_position_t list) \<and>
   map_of (nominal_glyphs demo_font) 0x20 = Some 3 \<and>
   last (calls (hb_justify demo_env demo_font [15] [] 0 demo_world)) =
     Split_buffer_to_lines (buffer (hb_shape demo_env demo_font [] demo_world)) [15] 3 \<and>
   new_calls demo_world (hb_justify demo_env demo_font [15] [] 0 demo_world) =
     new_calls demo_world (hb_shape demo_env demo_font [] demo_world) @
       [Get_nominal_glyph 0x20,
        Split_buffer_to_lines (buffer (hb_shape demo_env demo_font [] demo_world)) [15] 3]"
  using hb_justify_break_glyph [of "[15]" demo_world demo_env demo_font "[]" 0]
  by (simp add: hb_justify_unfold hb_shape_def hb_shape_full_unfold demo_defs Let_def)

text \<open>
  C9. With at least one target length, the line splitter is called exactly once, on the
  buffer as shaping left it, and its result is what \<^verbatim>\<open>hb_justify\<close> leaves behind.
  The boolean of \<^verbatim>\<open>hb_shape_full\<close> plays no part: inverting the flag that plan
  execution returns changes nothing of what \<^verbatim>\<open>hb_justify\<close> does, and
  \<^verbatim>\<open>hb_justify\<close> returns no value. The sample shows a run where shaping fails and
  the buffer is split all the same.
\<close>

theorem hb_justify_splits_unconditionally:
  "target_lengths \<noteq> [] \<Longrightarrow>
   hb_split_buffer_to_lines env (buffer (snd (hb_shape_full env font features None w)))
       target_lengths (snd (get_nominal_glyph env font 0x20 space0)) =
     (buffer (hb_justify env font target_lengths features space0 w),
      line_segments (hb_justify env font target_lengths features space0 w)) \<and>
   length (filter is_split (new_calls w (hb_justify env font target_lengths features space0 w))) = 1 \<and>
   hb_justify (flip_execute_result env) font target_lengths features space0 w =
     hb_justify env font target_lengths features space0 w"
  by (simp add: hb_justify_unfold hb_shape_full_unfold new_calls_def Let_def flip_execute_result_def)

theorem hb_justify_splits_unconditionally_witness:
  "[15] \<noteq> ([] :: hb_position_t list) \<and>
   \<not> fst (hb_shape_full demo_env demo_font_no_cmap [] None demo_world) \<and>
   line_segments (hb_justify demo_env demo_font_no_cmap [15] [] 7 demo_world) = [(0, 3)] \<and>
   length (filter is_split
     (new_calls demo_world (hb_justify demo_env demo_font_no_cmap [15] [] 7 demo_world))) = 1"
  using hb_justify_splits_unconditionally [of "[15]" demo_env demo_font_no_cmap "[]" demo_world 7]
  by (simp add: hb_justify_unfold hb_shape_full_unfold new_calls_def demo_defs cut_line_def
      overflow_point_def last_break_def Let_def split_lines.simps)

text \<open>
  \<^verbatim>\<open>hb_justify\<close> does not look at the flag the nominal-glyph lookup returns:
  inverting it changes nothing. With at least one target length, the break glyph handed
  to the line splitter is whatever the lookup left in \<^verbatim>\<open>space\<close>, also when the
  lookup reports that the font has no glyph for the space character. The samples show a
  font without a character map: with a lookup that leaves the variable alone the
  splitter receives its initial content (7 here), and with a lookup that writes 0 it
  receives 0.
\<close>

theorem hb_justify_ignores_lookup_flag:
  "hb_justify (flip_lookup_result env) font target_lengths features space0 w =
     hb_justify env font target_lengths features space0 w \<and>
   (target_lengths \<noteq> [] \<longrightarrow>
      last (calls (hb_justify env font target_lengths features space0 w)) =
        Split_buffer_to_lines (buffer (hb_shape env font features w)) target_lengths
          (snd (get_nominal_glyph env font 0x20 space0)))"
  by (simp add: hb_justify_def hb_shape_def hb_shape_full_unfold record_call_def
        flip_lookup_result_def Let_def split_beta)

theorem hb_justify_ignores_lookup_flag_witness:
  "\<not> fst (get_nominal_glyph demo_env demo_font_no_cmap 0x20 7) \<and>
   last (calls (hb_justify demo_env demo_font_no_cmap [15] [] 7 demo_world)) =
     Split_buffer_to_lines demo_buffer [15] 7 \<and>
   last (calls (hb_justify
                  (modelled_collaborators [''ot'', ''fallback''] demo_backends (\<lambda>g. 0))
                  demo_font_no_cmap [15] [] 7 demo_world)) =
     Split_buffer_to_lines demo_buffer [15] 0"
  using hb_justify_ignores_lookup_flag [of demo_env demo_font_no_cmap "[15]" "[]" 7 demo_world]
    hb_justify_ignores_lookup_flag
      [of "modelled_collaborators [''ot'', ''fallback''] demo_backends (\<lambda>g. 0)"
          demo_font_no_cmap "[15]" "[]" 7 demo_world]
  by (simp add: hb_shape_def hb_shape_full_unfold demo_defs)

subsection \<open>The result of hb_shape_full\<close>

lemma try_shapers_append:
  "try_shapers bk font features (ss1 @ ss2) buf =
     (if fst (try_shapers bk font features ss1 buf) then try_shapers bk font features ss1 buf
      else try_shapers bk font features ss2 (snd (try_shapers bk font features ss1 buf)))"
proof (induction ss1 arbitrary: buf)
  case Nil
  then show ?case by simp
next
  case (Cons s ss1)
  show ?case
  proof (cases "shaper_applicable bk s (props buf)")
    case False
    then show ?thesis using Cons.IH [of buf] by simp
  next
    case True
    obtain ok buf' where r: "shaper_run bk s font buf features = (ok, buf')"
      by (cases "shaper_run bk s font buf features")
    show ?thesis
    proof (cases ok)
      case True
      then show ?thesis using r \<open>shaper_applicable bk s (props buf)\<close> by simp
    next
      case False
      then show ?thesis using r \<open>shaper_applicable bk s (props buf)\<close> Cons.IH [of buf'] by simp
    qed
  qed
qed

lemma try_shapers_success_split:
  "fst (try_shapers bk font features ss buf) \<Longrightarrow>
   \<exists>ss1 s ss2. ss = ss1 @ s # ss2 \<and>
     \<not> fst (try_shapers bk font features ss1 buf) \<and>
     shaper_applicable bk s (props (snd (try_shapers bk font features ss1 buf))) \<and>
     fst (shaper_run bk s font (snd (try_shapers bk font features ss1 buf)) features)"
proof (induction ss arbitrary: buf)
  case Nil
  then show ?case by simp
next
  case (Cons s ss)
  show ?case
  proof (cases "shaper_applicable bk s (props buf) \<and> fst (shaper_run bk s font buf features)")
    case True
    then have "s # ss = [] @ s # ss \<and>
        \<not> fst (try_shapers bk font features [] buf) \<and>
        shaper_applicable bk s (props (snd (try_shapers bk font features [] buf))) \<and>
        fst (shaper_run bk s font (snd (try_shapers bk font features [] buf)) features)"
      by simp
    then show ?thesis by blast
  next
    case False
    define buf' where "buf' = (if shaper_applicable bk s (props buf)
                               then snd (shaper_run bk s font buf features) else buf)"
    have step: "\<And>ts. try_shapers bk font features (s # ts) buf = try_shapers bk font features ts buf'"
      using False by (auto simp: buf'_def split: prod.splits)
    from Cons.prems step have "fst (try_shapers bk font features ss buf')" by simp
    from Cons.IH [OF this] obtain ss1 t ss2 where
      h: "ss = ss1 @ t # ss2"
         "\<not> fst (try_shapers bk font features ss1 buf')"
         "shaper_applicable bk t (props (snd (try_shapers bk font features ss1 buf')))"
         "fst (shaper_run bk t font (snd (try_shapers bk font features ss1 buf')) features)"
      by blast
    have "s # ss = (s # ss1) @ t # ss2 \<and>
        \<not> fst (try_shapers bk font features (s # ss1) buf) \<and>
        shaper_applicable bk t (props (snd (try_shapers bk font features (s # ss1) buf))) \<and>
        fst (shaper_run bk t font (snd (try_shapers bk font features (s # ss1) buf)) features)"
      using h by (simp only: step) simp
    then show ?thesis by blast
  qed
qed

lemma try_shapers_success_iff:
  "fst (try_shapers bk font features ss buf) =
   (\<exists>ss1 s ss2. ss = ss1 @ s # ss2 \<and>
     \<not> fst (try_shapers bk font features ss1 buf) \<and>
     shaper_applicable bk s (props (snd (try_shapers bk font features ss1 buf))) \<and>
     fst (shaper_run bk s font (snd (try_shapers bk font features ss1 buf)) features))"
proof
  assume "fst (try_shapers bk font features ss buf)"
  then show "\<exists>ss1 s ss2. ss = ss1 @ s # ss2 \<and>
     \<not> fst (try_shapers bk font features ss1 buf) \<and>
     shaper_applicable bk s (props (snd (try_shapers bk font features ss1 buf))) \<and>
     fst (shaper_run bk s font (snd (try_shapers bk font features ss1 buf)) features)"
    by (rule try_shapers_success_split)
next
  assume "\<exists>ss1 s ss2. ss = ss1 @ s # ss2 \<and>
     \<not> fst (try_shapers bk font features ss1 buf) \<and>
     shaper_applicable bk s (props (snd (try_shapers bk font features ss1 buf))) \<and>
     fst (shaper_run bk s font (snd (try_shapers bk font features ss1 buf)) features)"
  then obtain ss1 s ss2 where
    h: "ss = ss1 @ s # ss2"
       "\<not> fst (try_shapers bk font features ss1 buf)"
       "shaper_applicable bk s (props (snd (try_shapers bk font features ss1 buf)))"
       "fst (shaper_run bk s font (snd (try_shapers bk font features ss1 buf)) features)"
    by blast
  have "fst (try_shapers bk font features (s # ss2) (snd (try_shapers bk font features ss1 buf)))"
    using h(3,4) by (auto split: prod.splits)
  then show "fst (try_shapers bk font features ss buf)"
    using h(1,2) by (simp add: try_shapers_append)
qed

text \<open>
  C2. \<^verbatim>\<open>hb_shape_full\<close> returns the boolean that executing the acquired plan
  produced, whatever the plan cache computes. With the plan cache as modelled, that
  boolean is true exactly when some backend of the effective order (the explicit list,
  else the default) succeeded: the backends before it declined or failed, and it was
  applicable to, and succeeded on, the buffer as they left it. It is false when every
  backend was tried and none succeeded, and in particular for an explicit empty list,
  where the buffer is also left as it was.
\<close>

theorem hb_shape_full_result:
  "fst (hb_shape_full env font features shaper_list w) =
     fst (hb_shape_plan_execute env
            (hb_shape_plan_create_cached2 env (face font) (props (buffer w)) features
               (coords font) shaper_list) font (buffer w) features) \<and>
   fst (hb_shape_full (modelled_collaborators default_shapers bk on_missing) font features
          shaper_list w) =
     (\<exists>ss1 s ss2.
        (case shaper_list of None \<Rightarrow> default_shapers | Some l \<Rightarrow> l) = ss1 @ s # ss2 \<and>
        \<not> fst (try_shapers bk font features ss1 (buffer w)) \<and>
        shaper_applicable bk s (props (snd (try_shapers bk font features ss1 (buffer w)))) \<and>
        fst (shaper_run bk s font (snd (try_shapers bk font features ss1 (buffer w))) features)) \<and>
   \<not> fst (hb_shape_full (modelled_collaborators default_shapers bk on_missing) font features
            (Some []) w) \<and>
   buffer (snd (hb_shape_full (modelled_collaborators default_shapers bk on_missing) font
                 features (Some []) w)) = buffer w"
proof -
  have a: "fst (hb_shape_full env font features shaper_list w) =
     fst (hb_shape_plan_execute env
            (hb_shape_plan_create_cached2 env (face font) (props (buffer w)) features
               (coords font) shaper_list) font (buffer w) features)"
    by (simp add: hb_shape_full_unfold)
  have b: "fst (hb_shape_full (modelled_collaborators default_shapers bk on_missing) font
                  features shaper_list w) =
     fst (try_shapers bk font features
            (case shaper_list of None \<Rightarrow> default_shapers | Some l \<Rightarrow> l) (buffer w))"
    by (simp add: hb_shape_full_unfold modelled_collaborators_def plan_execute_def
          plan_create_cached2_def)
  have c: "hb_shape_plan_execute (modelled_collaborators default_shapers bk on_missing)
             (hb_shape_plan_create_cached2 (modelled_collaborators default_shapers bk on_missing)
                (face font) (props (buffer w)) features (coords font) (Some []))
             font (buffer w) features = (False, buffer w)"
    by (simp add: modelled_collaborators_def plan_execute_def plan_create_cached2_def)
  show ?thesis
    using a c by (simp only: b try_shapers_success_iff [symmetric]) (simp add: hb_shape_full_unfold)
qed

theorem hb_shape_full_result_witness:
  "fst (hb_shape_full demo_env demo_font [] None demo_world) \<and>
   \<not> fst (hb_shape_full demo_env demo_font_no_cmap [] None demo_world) \<and>
   \<not> fst (hb_shape_full demo_env demo_font [] (Some [''fallback'']) demo_world) \<and>
   \<not> fst (hb_shape_full demo_env demo_font [] (Some []) demo_world) \<and>
   buffer (snd (hb_shape_full demo_env demo_font [] (Some []) demo_world)) = demo_buffer"
  using hb_shape_full_result [where env = demo_env and font = demo_font and features = "[]"
      and shaper_list = "Some []" and w = demo_world and default_shapers = "[''ot'', ''fallback'']"
      and bk = demo_backends and on_missing = "\<lambda>g. g"]
  by (simp add: hb_shape_full_unfold demo_defs)

subsection \<open>The shaper list\<close>

lemma get_unconst_stored:
  "stored (snd (get_unconst shapers r)) = Some (fst (get_unconst shapers r))"
  by (simp add: get_unconst_def split: option.splits prod.splits)

lemma get_unconst_cached:
  "stored r = Some p \<Longrightarrow> get_unconst shapers r = (p, r)"
  by (simp add: get_unconst_def)

lemma hb_calloc_consumes_one:
  "alloc_script (snd (hb_calloc n r)) = tl (alloc_script r)"
  by (simp add: hb_calloc_def)

lemma store_alloc_script: "alloc_script (store a i v r) = alloc_script r"
  by (simp add: store_def)

lemma create_loop_alloc_script:
  "alloc_script (snd (create_loop shapers a i r)) = alloc_script r"
proof (induction shapers a i r rule: create_loop.induct)
  case (1 shapers a i r)
  show ?case
  proof (cases "i < length shapers")
    case True
    then show ?thesis using "1.IH" by (subst create_loop.simps) (simp add: store_alloc_script)
  next
    case False
    then show ?thesis by (subst create_loop.simps) simp
  qed
qed

lemma create_alloc_script:
  "alloc_script (snd (create shapers r)) = tl (alloc_script r)"
proof (cases "hb_calloc (1 + length shapers) r")
  case (Pair x r1)
  have r1: "alloc_script r1 = tl (alloc_script r)"
    using hb_calloc_consumes_one [of "1 + length shapers" r] Pair by simp
  show ?thesis
  proof (cases x)
    case None
    then show ?thesis using Pair r1 by (simp add: create_def)
  next
    case (Some a)
    then show ?thesis
      using Pair r1 create_loop_alloc_script [of shapers a 0 r1]
      by (simp add: create_def split_beta Let_def hb_atexit_def store_alloc_script)
  qed
qed

lemma get_unconst_alloc_script:
  "alloc_script (snd (get_unconst shapers r)) =
     (if stored r = None then tl (alloc_script r) else alloc_script r)"
  using create_alloc_script [of shapers r]
  by (auto simp: get_unconst_def split: option.splits prod.splits)

text \<open>
  C5. Two calls of \<^verbatim>\<open>hb_shape_list_shapers\<close> in a row return the same pointer,
  and the second call changes nothing: the list it points to has the same contents
  after both. The two calls together make at most one allocation request, so the list
  is constructed at most once.
\<close>

theorem hb_shape_list_shapers_construct_once:
  "fst (hb_shape_list_shapers shapers (snd (hb_shape_list_shapers shapers r))) =
     fst (hb_shape_list_shapers shapers r) \<and>
   snd (hb_shape_list_shapers shapers (snd (hb_shape_list_shapers shapers r))) =
     snd (hb_shape_list_shapers shapers r) \<and>
   shaper_list_at (snd (hb_shape_list_shapers shapers (snd (hb_shape_list_shapers shapers r))))
       (fst (hb_shape_list_shapers shapers (snd (hb_shape_list_shapers shapers r)))) =
     shaper_list_at (snd (hb_shape_list_shapers shapers r)) (fst (hb_shape_list_shapers shapers r)) \<and>
   length (alloc_script r) -
     length (alloc_script (snd (hb_shape_list_shapers shapers (snd (hb_shape_list_shapers shapers r)))))
     \<le> 1"
proof -
  let ?p = "fst (get_unconst shapers r)" and ?r1 = "snd (get_unconst shapers r)"
  have "stored ?r1 = Some ?p" by (rule get_unconst_stored)
  then have again: "get_unconst shapers ?r1 = (?p, ?r1)" by (rule get_unconst_cached)
  have "length (alloc_script r) - length (alloc_script ?r1) \<le> 1"
    by (simp add: get_unconst_alloc_script, arith)
  then show ?thesis by (simp add: hb_shape_list_shapers_def again)
qed

theorem hb_shape_list_shapers_construct_once_witness:
  "fst (hb_shape_list_shapers demo_shapers (demo_registry [True])) = Block 0 \<and>
   fst (hb_shape_list_shapers demo_shapers
          (snd (hb_shape_list_shapers demo_shapers (demo_registry [True])))) = Block 0 \<and>
   shaper_list_at (snd (hb_shape_list_shapers demo_shapers
                          (snd (hb_shape_list_shapers demo_shapers (demo_registry [True])))))
       (Block 0) = Some [Some ''ot'', Some ''fallback'', None] \<and>
   atexit_handlers (snd (hb_shape_list_shapers demo_shapers
                          (snd (hb_shape_list_shapers demo_shapers (demo_registry [True]))))) = 1"
  using hb_shape_list_shapers_construct_once [of demo_shapers "demo_registry [True]"]
  by (simp add: registry_defs)

lemma create_fails:
  "alloc_script r = [] \<or> hd (alloc_script r) = False \<Longrightarrow>
   create shapers r = (None, r\<lparr>alloc_script := tl (alloc_script r)\<rparr>)"
proof -
  assume "alloc_script r = [] \<or> hd (alloc_script r) = False"
  then have "hb_calloc (1 + length shapers) r = (None, r\<lparr>alloc_script := tl (alloc_script r)\<rparr>)"
    unfolding hb_calloc_def by presburger
  then show ?thesis by (simp add: create_def)
qed

text \<open>
  C6. If nothing is cached yet and the allocation in \<^verbatim>\<open>create\<close> fails,
  \<^verbatim>\<open>hb_shape_list_shapers\<close> returns \<^verbatim>\<open>nil_shaper_list\<close>, the list holding only
  the null terminator. The only traces it leaves are the cached pointer and the consumed
  allocation request: no block, no exit handler, and nothing else is returned.
\<close>

theorem hb_shape_list_shapers_allocation_failure:
  "stored r = None \<Longrightarrow> alloc_script r = [] \<or> hd (alloc_script r) = False \<Longrightarrow>
   hb_shape_list_shapers shapers r =
     (Nil_shaper_list, r\<lparr>stored := Some Nil_shaper_list, alloc_script := tl (alloc_script r)\<rparr>) \<and>
   shaper_list_at (snd (hb_shape_list_shapers shapers r)) (fst (hb_shape_list_shapers shapers r)) =
     Some [None]"
proof -
  assume s: "stored r = None" and f: "alloc_script r = [] \<or> hd (alloc_script r) = False"
  have c: "create shapers r = (None, r\<lparr>alloc_script := tl (alloc_script r)\<rparr>)"
    using f by (rule create_fails)
  have "hb_shape_list_shapers shapers r =
     (Nil_shaper_list, r\<lparr>stored := Some Nil_shaper_list, alloc_script := tl (alloc_script r)\<rparr>)"
    by (simp add: hb_shape_list_shapers_def get_unconst_def s c get_null_def)
  then show ?thesis by (simp add: shaper_list_at_def nil_shaper_list_def)
qed

theorem hb_shape_list_shapers_allocation_failure_witness:
  "stored (demo_registry [False, True]) = None \<and>
   hd (alloc_script (demo_registry [False, True])) = False \<and>
   fst (hb_shape_list_shapers demo_shapers (demo_registry [False, True])) = Nil_shaper_list \<and>
   shaper_list_at (snd (hb_shape_list_shapers demo_shapers (demo_registry [False, True])))
     Nil_shaper_list = Some [None] \<and>
   atexit_handlers (snd (hb_shape_list_shapers demo_shapers (demo_registry [False, True]))) = 0 \<and>
   fst (hb_shape_list_shapers demo_shapers
          (snd (hb_shape_list_shapers demo_shapers (demo_registry [False, True])))) = Nil_shaper_list"
  using hb_shape_list_shapers_allocation_failure [of "demo_registry [False, True]" demo_shapers]
  by (simp add: registry_defs)

lemma store_block:
  "blocks r a = Some arr \<Longrightarrow> store a i v r = r\<lparr>blocks := (blocks r)(a := Some (arr[i := v]))\<rparr>"
  by (simp add: store_def)

lemma create_loop_result:
  "blocks r a = Some arr \<Longrightarrow> length arr = Suc (length shapers) \<Longrightarrow> i \<le> length shapers \<Longrightarrow>
   create_loop shapers a i r =
     (length shapers,
      r\<lparr>blocks := (blocks r)(a := Some (take i arr @ map (\<lambda>e. Some (name e)) (drop i shapers) @
                                          [arr ! length shapers]))\<rparr>)"
proof (induction shapers a i r arbitrary: arr rule: create_loop.induct)
  case (1 shapers a i r)
  show ?case
  proof (cases "i < length shapers")
    case False
    then have i: "i = length shapers" using "1.prems"(3) by simp
    have "take i arr @ [arr ! length shapers] = arr"
      using "1.prems"(2) i by (simp add: take_Suc_conv_app_nth [symmetric])
    then have "(blocks r)(a := Some (take i arr @ map (\<lambda>e. Some (name e)) (drop i shapers) @
                                     [arr ! length shapers])) = blocks r"
      using i "1.prems"(1) by (simp add: fun_upd_idem)
    then show ?thesis using False i by (subst create_loop.simps) simp
  next
    case True
    let ?v = "Some (name (shapers ! i))"
    let ?r = "store a i ?v r"
    let ?arr = "arr[i := ?v]"
    have st: "?r = r\<lparr>blocks := (blocks r)(a := Some ?arr)\<rparr>"
      using "1.prems"(1) by (rule store_block)
    have b: "blocks ?r a = Some ?arr" by (simp add: st)
    have ih: "create_loop shapers a (Suc i) ?r =
       (length shapers,
        ?r\<lparr>blocks := (blocks ?r)(a := Some (take (Suc i) ?arr @
                 map (\<lambda>e. Some (name e)) (drop (Suc i) shapers) @ [?arr ! length shapers]))\<rparr>)"
      using True b "1.prems"(2) by (intro "1.IH") simp_all
    have l1: "take (Suc i) ?arr = take i arr @ [?v]"
      using True "1.prems"(2) by (simp add: take_Suc_conv_app_nth)
    have l2: "drop i shapers = shapers ! i # drop (Suc i) shapers"
      using True by (simp add: Cons_nth_drop_Suc)
    have l3: "?arr ! length shapers = arr ! length shapers"
      using True by simp
    have eq: "create_loop shapers a i r = create_loop shapers a (Suc i) ?r"
      using True by (subst create_loop.simps) simp
    have "create_loop shapers a i r =
       (length shapers,
        ?r\<lparr>blocks := (blocks ?r)(a := Some ((take i arr @ [?v]) @
                 map (\<lambda>e. Some (name e)) (drop (Suc i) shapers) @ [arr ! length shapers]))\<rparr>)"
      unfolding eq ih l1 l3 by (rule refl)
    also have "\<dots> =
       (length shapers,
        r\<lparr>blocks := (blocks r)(a := Some (take i arr @
                 map (\<lambda>e. Some (name e)) (drop i shapers) @ [arr ! length shapers]))\<rparr>)"
      unfolding l2 by (simp add: st)
    finally show ?thesis .
  qed
qed

text \<open>
  When the allocation succeeds, \<^verbatim>\<open>create\<close> returns a fresh block that holds the
  names of the compiled-in shapers in table order followed by the null terminator, and
  registers the exit handler once.
\<close>

theorem create_fills_shaper_list:
  assumes "alloc_script r \<noteq> []" and "hd (alloc_script r)"
  shows "fst (create shapers r) = Some (Block (next_block r)) \<and>
         shaper_list_at (snd (create shapers r)) (Block (next_block r)) =
           Some (map (\<lambda>e. Some (name e)) shapers @ [None]) \<and>
         atexit_handlers (snd (create shapers r)) = Suc (atexit_handlers r) \<and>
         stored (snd (create shapers r)) = stored r"
proof -
  define zero :: "string option list" where "zero = replicate (Suc (length shapers)) None"
  define r1 where "r1 = r\<lparr>blocks := (blocks r)(next_block r := Some zero),
                          next_block := Suc (next_block r),
                          alloc_script := tl (alloc_script r)\<rparr>"
  have c: "hb_calloc (Suc (length shapers)) r = (Some (next_block r), r1)"
    using assms by (simp add: hb_calloc_def zero_def r1_def)
  have b: "blocks r1 (next_block r) = Some zero" by (simp add: r1_def)
  have len: "length zero = Suc (length shapers)" by (simp add: zero_def)
  have z: "zero ! length shapers = None"
    unfolding zero_def by (rule nth_replicate) simp
  have loop: "create_loop shapers (next_block r) 0 r1 =
     (length shapers,
      r1\<lparr>blocks := (blocks r1)(next_block r := Some (take 0 zero @
               map (\<lambda>e. Some (name e)) (drop 0 shapers) @ [zero ! length shapers]))\<rparr>)"
    using b len by (rule create_loop_result) simp
  have "create shapers r =
     (Some (Block (next_block r)),
      hb_atexit (store (next_block r) (length shapers) None
        (r1\<lparr>blocks := (blocks r1)(next_block r := Some (take 0 zero @
               map (\<lambda>e. Some (name e)) (drop 0 shapers) @ [zero ! length shapers]))\<rparr>)))"
    by (simp add: create_def c loop)
  moreover have "(map (\<lambda>e. Some (name e)) shapers @ [None])[length shapers := None] =
                 map (\<lambda>e. Some (name e)) shapers @ [None]"
    using list_update_length [of "map (\<lambda>e. Some (name e)) shapers" None "[]" None] by simp
  ultimately show ?thesis
    by (simp add: store_def hb_atexit_def shaper_list_at_def z r1_def)
qed

theorem create_fills_shaper_list_witness:
  "alloc_script (demo_registry [True]) \<noteq> [] \<and> hd (alloc_script (demo_registry [True])) \<and>
   fst (create demo_shapers (demo_registry [True])) = Some (Block 0) \<and>
   shaper_list_at (snd (create demo_shapers (demo_registry [True]))) (Block 0) =
     Some [Some ''ot'', Some ''fallback'', None]"
  using create_fills_shaper_list [of "demo_registry [True]" demo_shapers]
  by (simp add: demo_registry_def demo_shapers_def)

subsection \<open>The line splitter's target lengths\<close>

lemma split_lines_step:
  "start < length glyphs \<Longrightarrow> targets \<noteq> [] \<Longrightarrow>
   split_lines targets break_glyph glyphs start =
     (start, cut_line (hd targets) break_glyph glyphs start) #
       split_lines (if tl targets = [] then targets else tl targets) break_glyph glyphs
         (cut_line (hd targets) break_glyph glyphs start)"
  by (subst split_lines.simps) (simp add: Let_def)

lemma split_lines_done:
  "length glyphs \<le> start \<or> targets = [] \<Longrightarrow> split_lines targets break_glyph glyphs start = []"
  by (subst split_lines.simps) simp

lemma target_index_step:
  assumes "targets \<noteq> []"
  shows "(if tl targets = [] then targets else tl targets) !
           min k (length (if tl targets = [] then targets else tl targets) - 1) =
         targets ! min (Suc k) (length targets - 1)"
proof (cases targets)
  case Nil
  then show ?thesis using assms by simp
next
  case (Cons t ts)
  show ?thesis
  proof (cases ts)
    case Nil
    then show ?thesis using Cons by simp
  next
    case (Cons t' ts')
    have "min (Suc k) (Suc (length ts')) = Suc (min k (length ts'))" by simp
    then show ?thesis using Cons \<open>targets = t # ts\<close> by simp
  qed
qed

lemma split_lines_nth:
  "targets \<noteq> [] \<Longrightarrow> k < length (split_lines targets break_glyph glyphs start) \<Longrightarrow>
   snd (split_lines targets break_glyph glyphs start ! k) =
     cut_line (targets ! min k (length targets - 1)) break_glyph glyphs
       (fst (split_lines targets break_glyph glyphs start ! k))"
proof (induction targets break_glyph glyphs start arbitrary: k rule: split_lines.induct)
  case (1 targets break_glyph glyphs start)
  show ?case
  proof (cases "length glyphs \<le> start")
    case True
    then show ?thesis using "1.prems" by (simp add: split_lines_done)
  next
    case False
    then have lt: "start < length glyphs" by simp
    let ?e = "cut_line (hd targets) break_glyph glyphs start"
    let ?ts = "if tl targets = [] then targets else tl targets"
    have step: "split_lines targets break_glyph glyphs start =
                  (start, ?e) # split_lines ?ts break_glyph glyphs ?e"
      using lt "1.prems"(1) by (rule split_lines_step)
    have ts: "?ts \<noteq> []" using "1.prems"(1) by simp
    show ?thesis
    proof (cases k)
      case 0
      then show ?thesis using step "1.prems"(1) by (simp add: hd_conv_nth)
    next
      case (Suc j)
      then have j: "j < length (split_lines ?ts break_glyph glyphs ?e)"
        using "1.prems"(2) step by simp
      have ih: "snd (split_lines ?ts break_glyph glyphs ?e ! j) =
                  cut_line (?ts ! min j (length ?ts - 1)) break_glyph glyphs
                    (fst (split_lines ?ts break_glyph glyphs ?e ! j))"
        using False "1.prems"(1) ts j by (intro "1.IH") simp_all
      have "?ts ! min j (length ?ts - 1) = targets ! min (Suc j) (length targets - 1)"
        using "1.prems"(1) by (rule target_index_step)
      then show ?thesis using ih Suc step by simp
    qed
  qed
qed

lemma split_lines_contiguous:
  "Suc k < length (split_lines targets break_glyph glyphs start) \<Longrightarrow>
   fst (split_lines targets break_glyph glyphs start ! Suc k) =
     snd (split_lines targets break_glyph glyphs start ! k)"
proof (induction targets break_glyph glyphs start arbitrary: k rule: split_lines.induct)
  case (1 targets break_glyph glyphs start)
  show ?case
  proof (cases "length glyphs \<le> start \<or> targets = []")
    case True
    then show ?thesis using "1.prems" by (simp add: split_lines_done)
  next
    case False
    let ?e = "cut_line (hd targets) break_glyph glyphs start"
    let ?ts = "if tl targets = [] then targets else tl targets"
    have step: "split_lines targets break_glyph glyphs start =
                  (start, ?e) # split_lines ?ts break_glyph glyphs ?e"
      using False by (intro split_lines_step) simp_all
    have len: "k < length (split_lines ?ts break_glyph glyphs ?e)"
      using "1.prems" step by simp
    show ?thesis
    proof (cases k)
      case 0
      have "length glyphs \<le> ?e \<or> split_lines ?ts break_glyph glyphs ?e =
              (?e, cut_line (hd ?ts) break_glyph glyphs ?e) #
                split_lines (if tl ?ts = [] then ?ts else tl ?ts) break_glyph glyphs
                  (cut_line (hd ?ts) break_glyph glyphs ?e)"
      proof (cases "length glyphs \<le> ?e")
        case True
        then show ?thesis by simp
      next
        case False
        then have "?e < length glyphs" by simp
        moreover have "?ts \<noteq> []" using \<open>\<not> (length glyphs \<le> start \<or> targets = [])\<close> by simp
        ultimately show ?thesis by (intro disjI2 split_lines_step)
      qed
      moreover have "\<not> length glyphs \<le> ?e"
        using len by (auto simp: split_lines_done)
      ultimately have "fst (split_lines ?ts break_glyph glyphs ?e ! 0) = ?e"
        by (metis fst_conv nth_Cons_0)
      then show ?thesis using step 0 by simp
    next
      case (Suc j)
      then have "Suc j < length (split_lines ?ts break_glyph glyphs ?e)" using len by simp
      then have "fst (split_lines ?ts break_glyph glyphs ?e ! Suc j) =
                 snd (split_lines ?ts break_glyph glyphs ?e ! j)"
        using False by (intro "1.IH") simp_all
      then show ?thesis using step Suc by simp
    qed
  qed
qed

lemma overflow_scan_prefix:
  "0 < m \<Longrightarrow> m \<le> overflow_scan target running gs i - i \<Longrightarrow>
   running + sum_list (map x_advance (take m gs)) \<le> target"
proof (induction gs arbitrary: running i m)
  case Nil
  then show ?case by simp
next
  case (Cons g gs)
  show ?case
  proof (cases "running + x_advance g > target")
    case True
    then show ?thesis using Cons.prems by simp
  next
    case False
    then have scan: "overflow_scan target running (g # gs) i =
                     overflow_scan target (running + x_advance g) gs (Suc i)" by simp
    obtain n where m: "m = Suc n" using Cons.prems(1) by (cases m) simp_all
    show ?thesis
    proof (cases n)
      case 0
      then show ?thesis using False m by simp
    next
      case (Suc n')
      have "n \<le> overflow_scan target (running + x_advance g) gs (Suc i) - Suc i"
        using Cons.prems(2) scan m by simp
      then have "running + x_advance g + sum_list (map x_advance (take n gs)) \<le> target"
        using Suc by (intro Cons.IH) simp_all
      then show ?thesis using m by (simp add: add.assoc)
    qed
  qed
qed

lemma overflow_point_prefix:
  "start < e \<Longrightarrow> e \<le> overflow_point target glyphs start \<Longrightarrow>
   segment_advance glyphs start e \<le> target"
  using overflow_scan_prefix [of "e - start" target 0 "drop start glyphs" start]
  by (simp add: overflow_point_def segment_advance_def)

lemma cut_line_within_target:
  assumes "start < length glyphs"
  shows "cut_line target break_glyph glyphs start = Suc start \<or>
         segment_advance glyphs start (cut_line target break_glyph glyphs start) \<le> target"
proof -
  let ?ov = "overflow_point target glyphs start"
  have b: "start \<le> ?ov \<and> ?ov \<le> length glyphs"
    using assms overflow_point_bounds [of start glyphs target] by simp
  show ?thesis
  proof (cases "length glyphs \<le> ?ov")
    case True
    then have "cut_line target break_glyph glyphs start = length glyphs"
      by (simp add: cut_line_def Let_def)
    moreover have "segment_advance glyphs start (length glyphs) \<le> target"
      using assms True by (intro overflow_point_prefix) simp_all
    ultimately show ?thesis by simp
  next
    case False
    show ?thesis
    proof (cases "last_break break_glyph glyphs start ?ov")
      case (Some j)
      then have "start < j \<and> j \<le> ?ov" by (rule last_break_range)
      then have "segment_advance glyphs start j \<le> target"
        by (intro overflow_point_prefix) simp_all
      moreover have "cut_line target break_glyph glyphs start = j"
        using False Some by (simp add: cut_line_def Let_def)
      ultimately show ?thesis by simp
    next
      case None
      show ?thesis
      proof (cases "?ov = start")
        case True
        then show ?thesis using False None by (simp add: cut_line_def Let_def)
      next
        case ne: False
        then have "start < ?ov" using b by simp
        then have "segment_advance glyphs start ?ov \<le> target"
          by (intro overflow_point_prefix) simp_all
        moreover have "cut_line target break_glyph glyphs start = ?ov"
          using False None ne by (simp add: cut_line_def Let_def)
        ultimately show ?thesis by simp
      qed
    qed
  qed
qed

lemma split_lines_start_in_buffer:
  "k < length (split_lines targets break_glyph glyphs start) \<Longrightarrow>
   fst (split_lines targets break_glyph glyphs start ! k) < length glyphs"
proof (induction targets break_glyph glyphs start arbitrary: k rule: split_lines.induct)
  case (1 targets break_glyph glyphs start)
  show ?case
  proof (cases "length glyphs \<le> start \<or> targets = []")
    case True
    then show ?thesis using "1.prems" by (simp add: split_lines_done)
  next
    case False
    let ?e = "cut_line (hd targets) break_glyph glyphs start"
    let ?ts = "if tl targets = [] then targets else tl targets"
    have step: "split_lines targets break_glyph glyphs start =
                  (start, ?e) # split_lines ?ts break_glyph glyphs ?e"
      using False by (intro split_lines_step) simp_all
    show ?thesis
    proof (cases k)
      case 0
      then show ?thesis using step False by simp
    next
      case (Suc j)
      then have "j < length (split_lines ?ts break_glyph glyphs ?e)"
        using "1.prems" step by simp
      then have "fst (split_lines ?ts break_glyph glyphs ?e ! j) < length glyphs"
        using False by (intro "1.IH") simp_all
      then show ?thesis using step Suc by simp
    qed
  qed
qed

lemma last_target_index:
  "targets \<noteq> [] \<Longrightarrow> length targets \<le> Suc k \<Longrightarrow>
   targets ! min k (length targets - 1) = last targets"
proof -
  assume "targets \<noteq> []" and "length targets \<le> Suc k"
  then have "min k (length targets - 1) = length targets - 1" by (cases targets) simp_all
  then show ?thesis using \<open>targets \<noteq> []\<close> by (simp add: last_conv_nth)
qed

text \<open>
  C8. When the target lengths are exhausted the last one is reused: every line whose
  index (from 0) is at least the number of target lengths minus one is cut with the last
  target length, and the advances of its glyphs sum to at most that length unless the
  line is a single glyph. With two target lengths and a buffer that takes four lines,
  the third and the fourth line are both cut with the second target length.
\<close>

theorem split_lines_last_target_repeats:
  assumes "targets \<noteq> []"
    and "k < length (split_lines targets break_glyph glyphs 0)"
    and "length targets \<le> Suc k"
  shows "snd (split_lines targets break_glyph glyphs 0 ! k) =
           cut_line (last targets) break_glyph glyphs
             (fst (split_lines targets break_glyph glyphs 0 ! k)) \<and>
         (snd (split_lines targets break_glyph glyphs 0 ! k) =
            Suc (fst (split_lines targets break_glyph glyphs 0 ! k)) \<or>
          segment_advance glyphs (fst (split_lines targets break_glyph glyphs 0 ! k))
            (snd (split_lines targets break_glyph glyphs 0 ! k)) \<le> last targets)"
proof -
  let ?l = "split_lines targets break_glyph glyphs 0 ! k"
  have t: "targets ! min k (length targets - 1) = last targets"
    using assms(1,3) by (rule last_target_index)
  have e: "snd ?l = cut_line (last targets) break_glyph glyphs (fst ?l)"
    using split_lines_nth [OF assms(1,2)] t by simp
  have "fst ?l < length glyphs" using assms(2) by (rule split_lines_start_in_buffer)
  then have "cut_line (last targets) break_glyph glyphs (fst ?l) = Suc (fst ?l) \<or>
             segment_advance glyphs (fst ?l)
               (cut_line (last targets) break_glyph glyphs (fst ?l)) \<le> last targets"
    by (rule cut_line_within_target)
  then show ?thesis using e by simp
qed

lemma demo_split: "split_lines [25, 35] 3 demo_line 0 = [(0, 2), (2, 5), (5, 8), (8, 11)]"
  by code_simp

lemma demo_cuts:
  "cut_line 35 3 demo_line 5 = 8" "cut_line 35 3 demo_line 8 = 11"
  "segment_advance demo_line 5 8 = 30" "segment_advance demo_line 8 11 = 30"
  by code_simp+

theorem split_lines_last_target_repeats_witness:
  "length (split_lines [25, 35] 3 demo_line 0) = 4 \<and>
   split_lines [25, 35] 3 demo_line 0 ! 2 = (5, 8) \<and>
   cut_line 35 3 demo_line 5 = 8 \<and> segment_advance demo_line 5 8 \<le> 35 \<and>
   split_lines [25, 35] 3 demo_line 0 ! 3 = (8, 11) \<and>
   cut_line 35 3 demo_line 8 = 11 \<and> segment_advance demo_line 8 11 \<le> 35"
  using split_lines_last_target_repeats [of "[25, 35]" 2 3 demo_line]
    split_lines_last_target_repeats [of "[25, 35]" 3 3 demo_line]
  by (simp add: demo_split demo_cuts)

end
